theory Spec2Isabelle
  imports Complex_Main
begin

section \<open>JavaScript values held by the store\<close>

text \<open>
  The store (\<^verbatim>\<open>useETLStore\<close>, built with zustand's \<^verbatim>\<open>create\<close>) keeps backend payloads in
  fields of TypeScript type \<^verbatim>\<open>any\<close>. They are modelled as JSON values extended with
  \<^verbatim>\<open>undefined\<close>. A payload number is an integer here: the store never computes with a
  payload number, it only tests its truthiness and interpolates it into messages.
\<close>

datatype json =
    JUndefined
  | JNull
  | JBool bool
  | JNum int
  | JStr string
  | JArr "json list"
  | JObj "(string \<times> json) list"

text \<open>JavaScript truthiness, as used by \<^verbatim>\<open>if (x)\<close>, \<^verbatim>\<open>!x\<close> and \<^verbatim>\<open>x || y\<close>.\<close>

fun truthy :: "json \<Rightarrow> bool" where
  "truthy JUndefined = False"
| "truthy JNull = False"
| "truthy (JBool b) = b"
| "truthy (JNum n) = (n \<noteq> 0)"
| "truthy (JStr s) = (s \<noteq> [])"
| "truthy (JArr xs) = True"
| "truthy (JObj kvs) = True"

definition digit_char :: "nat \<Rightarrow> char" where
  "digit_char d = ''0123456789'' ! d"

fun show_nat :: "nat \<Rightarrow> string" where
  "show_nat n = (if n < 10 then [digit_char n] else show_nat (n div 10) @ [digit_char (n mod 10)])"

declare show_nat.simps [simp del]

definition show_int :: "int \<Rightarrow> string" where
  "show_int i = (if i < 0 then CHR ''-'' # show_nat (nat (- i)) else show_nat (nat i))"

fun join_with :: "string \<Rightarrow> string list \<Rightarrow> string" where
  "join_with sep [] = []"
| "join_with sep [x] = x"
| "join_with sep (x # y # ys) = x @ sep @ join_with sep (y # ys)"

text \<open>
  \<^verbatim>\<open>String(x)\<close>, which is what a template literal and \<^verbatim>\<open>new Error(x)\<close> apply to a value.
  Inside an array, \<^verbatim>\<open>null\<close> and \<^verbatim>\<open>undefined\<close> render as the empty string.
\<close>

fun to_string :: "json \<Rightarrow> string" where
  "to_string JUndefined = ''undefined''"
| "to_string JNull = ''null''"
| "to_string (JBool b) = (if b then ''true'' else ''false'')"
| "to_string (JNum n) = show_int n"
| "to_string (JStr s) = s"
| "to_string (JArr xs) =
     join_with '','' (map (\<lambda>x. if x = JNull \<or> x = JUndefined then [] else to_string x) xs)"
| "to_string (JObj kvs) = ''[object Object]''"

text \<open>A thrown value: an \<^verbatim>\<open>Error\<close> instance with its message, or anything else.\<close>

datatype thrown = Error string | NonError

text \<open>
  Property read \<^verbatim>\<open>x[p]\<close> on own properties: it throws a \<^verbatim>\<open>TypeError\<close> on \<^verbatim>\<open>null\<close> and
  \<^verbatim>\<open>undefined\<close> (the message is V8's), an array has its indices and \<^verbatim>\<open>length\<close>, a
  string has \<^verbatim>\<open>length\<close> and its characters. Properties inherited from a prototype are
  outside the model.
\<close>

fun get_prop :: "json \<Rightarrow> string \<Rightarrow> thrown + json" where
  "get_prop JUndefined p =
     Inl (Error (''Cannot read properties of undefined (reading '' @ [CHR 0x27] @ p @ [CHR 0x27] @ '')''))"
| "get_prop JNull p =
     Inl (Error (''Cannot read properties of null (reading '' @ [CHR 0x27] @ p @ [CHR 0x27] @ '')''))"
| "get_prop (JObj kvs) p = Inr (case map_of kvs p of None \<Rightarrow> JUndefined | Some v \<Rightarrow> v)"
| "get_prop (JArr xs) p =
     Inr (if p = ''length'' then JNum (int (length xs))
          else case map_of (zip (map show_nat [0..<length xs]) xs) p of
                 None \<Rightarrow> JUndefined | Some v \<Rightarrow> v)"
| "get_prop (JStr s) p =
     Inr (if p = ''length'' then JNum (int (length s))
          else case map_of (zip (map show_nat [0..<length s]) (map (\<lambda>c. JStr [c]) s)) p of
                 None \<Rightarrow> JUndefined | Some v \<Rightarrow> v)"
| "get_prop (JBool b) p = Inr JUndefined"
| "get_prop (JNum n) p = Inr JUndefined"

section \<open>The store's state\<close>

datatype level = Info | Success | Warning | ErrorLevel

record LogEntry =
  timestamp :: string
  message :: string
  level :: level

text \<open>
  \<^verbatim>\<open>interface SessionData\<close>. A field of type \<^verbatim>\<open>T | null\<close> with \<^verbatim>\<open>T\<close> a string is an
  option; a field the store assigns from a backend payload is a \<^typ>\<open>json\<close> value, with
  \<^const>\<open>JNull\<close> for \<^verbatim>\<open>null\<close>. The cache is the object \<^verbatim>\<open>Record<string, any>\<close>: a key can
  be present with any value.
\<close>

record SessionData =
  fileId :: "string option"
  filename :: "string option"
  sheetNames :: "string list"
  masterSheet :: "string option"
  targetSheet :: "string option"
  previewData :: json
  cleanResult :: json
  columnInsights :: json
  availableColumns :: json
  lookupResult :: json
  lookupInsights :: json
  updateResult :: json
  sharepointConfig :: json
  logs :: "LogEntry list"
  cache :: "string \<rightharpoonup> json"

record ETLState =
  currentStep :: int
  isLoading :: bool
  error :: "string option"
  sessionData :: SessionData

definition initialSessionData :: SessionData where
  "initialSessionData =
     \<lparr> fileId = None, filename = None, sheetNames = [], masterSheet = None,
       targetSheet = None, previewData = JNull, cleanResult = JNull,
       columnInsights = JNull, availableColumns = JArr [], lookupResult = JNull,
       lookupInsights = JNull, updateResult = JNull, sharepointConfig = JNull,
       logs = [], cache = Map.empty \<rparr>"

definition initialState :: ETLState where
  "initialState =
     \<lparr> currentStep = 0, isLoading = False, error = None, sessionData = initialSessionData \<rparr>"

section \<open>Basic actions\<close>

definition setCurrentStep :: "int \<Rightarrow> ETLState \<Rightarrow> ETLState" where
  "setCurrentStep step s = s\<lparr>currentStep := step\<rparr>"

definition setLoading :: "bool \<Rightarrow> ETLState \<Rightarrow> ETLState" where
  "setLoading loading s = s\<lparr>isLoading := loading\<rparr>"

definition setError :: "string option \<Rightarrow> ETLState \<Rightarrow> ETLState" where
  "setError e s = s\<lparr>error := e\<rparr>"

text \<open>
  \<^verbatim>\<open>updateSessionData(data)\<close> spreads a partial record over the session data; the partial
  record is the function that overwrites the fields it names.
\<close>

definition updateSessionData :: "(SessionData \<Rightarrow> SessionData) \<Rightarrow> ETLState \<Rightarrow> ETLState" where
  "updateSessionData data s = s\<lparr>sessionData := data (sessionData s)\<rparr>"

text \<open>
  \<^verbatim>\<open>xs.slice(-n)\<close>: the last \<open>n\<close> elements, all of them when there are fewer.
\<close>

definition slice_last :: "nat \<Rightarrow> 'a list \<Rightarrow> 'a list" where
  "slice_last n xs = drop (length xs - n) xs"

text \<open>
  \<^verbatim>\<open>addLog(message, level = 'info')\<close>. The first argument is what
  \<^verbatim>\<open>new Date().toLocaleTimeString()\<close> returns at the call; an omitted level is \<open>None\<close>.
\<close>

definition addLog :: "string \<Rightarrow> string \<Rightarrow> level option \<Rightarrow> ETLState \<Rightarrow> ETLState" where
  "addLog now msg lvl s =
     s\<lparr>sessionData := (sessionData s)
        \<lparr>logs := slice_last 50
           (logs (sessionData s) @
            [\<lparr> timestamp = now, message = msg,
               level = (case lvl of None \<Rightarrow> Info | Some l \<Rightarrow> l) \<rparr>])\<rparr>\<rparr>"

definition resetSession :: "ETLState \<Rightarrow> ETLState" where
  "resetSession s =
     s\<lparr>currentStep := 0, isLoading := False, error := None, sessionData := initialSessionData\<rparr>"

text \<open>\<^verbatim>\<open>!sessionData.fileId\<close> on a \<^verbatim>\<open>string | null\<close>: null and the empty string are falsy.\<close>

definition truthy_str :: "string option \<Rightarrow> bool" where
  "truthy_str x = (case x of None \<Rightarrow> False | Some s \<Rightarrow> s \<noteq> [])"

definition getMaxAllowedStep :: "ETLState \<Rightarrow> int" where
  "getMaxAllowedStep s =
     (let sd = sessionData s in
      if \<not> truthy_str (fileId sd) then 0
      else if \<not> truthy (previewData sd) then 1
      else if \<not> truthy (cleanResult sd) then 2
      else if \<not> truthy (columnInsights sd) then 3
      else if \<not> truthy (lookupResult sd) then 4
      else if \<not> truthy (lookupInsights sd) then 5
      else if \<not> truthy (updateResult sd) then 6
      else 7)"

definition goToStep :: "string \<Rightarrow> int \<Rightarrow> ETLState \<Rightarrow> ETLState" where
  "goToStep now step s =
     (let maxStep = getMaxAllowedStep s in
      if step \<ge> 0 \<and> step \<le> maxStep
      then addLog now (''Navigated to step '' @ show_int (step + 1)) (Some Info)
             (s\<lparr>currentStep := step\<rparr>)
      else s)"

definition nextStep :: "ETLState \<Rightarrow> ETLState" where
  "nextStep s =
     (let maxStep = getMaxAllowedStep s in
      if currentStep s < maxStep then s\<lparr>currentStep := currentStep s + 1\<rparr> else s)"

definition previousStep :: "string \<Rightarrow> ETLState \<Rightarrow> ETLState" where
  "previousStep now s =
     (if currentStep s > 0
      then addLog now (''Went back to step '' @ show_int (currentStep s)) (Some Info)
             (s\<lparr>currentStep := currentStep s - 1\<rparr>)
      else s)"

section \<open>The backend, the clock and the request trace\<close>

text \<open>
  The backend is reached only through \<^verbatim>\<open>fetch\<close>. A request is the endpoint with the JSON
  body the store sends; the response is what \<^verbatim>\<open>fetch\<close> and \<^verbatim>\<open>response.json()\<close> settle to.
\<close>

datatype request =
    PreviewSession string string
  | CleanSession
  | ColumnInsights
  | GetLookupColumns
  | LookupSession string
  | LookupInsights

datatype response =
    Rejected thrown
  | Response bool nat string "thrown + json"

text \<open>
  The environment of one action: the answer of the backend to each request and the
  successive readings of the clock. The world is the store together with the trace of
  requests sent so far and the number of clock readings taken. One action runs at a
  time: nothing else touches the store while an action awaits.
\<close>

record env =
  fetch :: "request \<Rightarrow> response"
  clock :: "nat \<Rightarrow> string"

record world =
  store :: ETLState
  requests :: "request list"
  ticks :: nat

definition on_store :: "(ETLState \<Rightarrow> ETLState) \<Rightarrow> world \<Rightarrow> world" where
  "on_store f w = w\<lparr>store := f (store w)\<rparr>"

definition add_log :: "env \<Rightarrow> string \<Rightarrow> level option \<Rightarrow> world \<Rightarrow> world" where
  "add_log e msg lvl w =
     w\<lparr>store := addLog (clock e (ticks w)) msg lvl (store w), ticks := Suc (ticks w)\<rparr>"

definition send :: "env \<Rightarrow> request \<Rightarrow> world \<Rightarrow> response \<times> world" where
  "send e req w = (fetch e req, w\<lparr>requests := requests w @ [req]\<rparr>)"

text \<open>
  The opening every API action shares:
  \<^verbatim>\<open>
  const response = await fetch(url, ...);
  if (!response.ok) throw new Error(`<what>: ${response.status} ${response.statusText}`);
  const result = await response.json();
  if (result.success) { ... } else throw new Error(result.error || '<what>');
  \<close>
  It yields the parsed result when the branch of success is taken, and the thrown value
  otherwise.
\<close>

definition api_call :: "env \<Rightarrow> request \<Rightarrow> string \<Rightarrow> world \<Rightarrow> (thrown + json) \<times> world" where
  "api_call e req what w =
     (case send e req w of
        (Rejected x, w') \<Rightarrow> (Inl x, w')
      | (Response ok status statusText body, w') \<Rightarrow>
          if \<not> ok then (Inl (Error (what @ '': '' @ show_nat status @ '' '' @ statusText)), w')
          else (case body of
                  Inl x \<Rightarrow> (Inl x, w')
                | Inr result \<Rightarrow>
                    (case get_prop result ''success'' of
                       Inl x \<Rightarrow> (Inl x, w')
                     | Inr success \<Rightarrow>
                         if truthy success then (Inr result, w')
                         else (case get_prop result ''error'' of
                                 Inl x \<Rightarrow> (Inl x, w')
                               | Inr err \<Rightarrow>
                                   (Inl (Error (if truthy err then to_string err else what)), w')))))"

text \<open>
  The handler every API action shares:
  \<^verbatim>\<open>
  catch (error) {
    const errorMessage = error instanceof Error ? error.message : '<what>';
    setError(errorMessage); addLog(errorMessage, 'error');
  }
  \<close>
\<close>

definition on_catch :: "env \<Rightarrow> string \<Rightarrow> thrown \<Rightarrow> world \<Rightarrow> world" where
  "on_catch e what x w =
     (let errorMessage = (case x of Error m \<Rightarrow> m | NonError \<Rightarrow> what);
          w = on_store (setError (Some errorMessage)) w
      in add_log e errorMessage (Some ErrorLevel) w)"

section \<open>API actions\<close>

definition loadLookupColumns :: "env \<Rightarrow> world \<Rightarrow> world" where
  "loadLookupColumns e w =
     (case send e GetLookupColumns w of
        (Rejected x, w) \<Rightarrow> w
      | (Response ok status statusText body, w) \<Rightarrow>
          if ok then
            (case body of
               Inl x \<Rightarrow> w
             | Inr result \<Rightarrow>
                 (case get_prop result ''success'' of
                    Inl x \<Rightarrow> w
                  | Inr success \<Rightarrow>
                      if truthy success then
                        (case get_prop result ''columns'' of
                           Inl x \<Rightarrow> w
                         | Inr columns \<Rightarrow>
                             on_store (updateSessionData (\<lambda>d. d\<lparr>availableColumns := columns\<rparr>)) w)
                      else w))
          else w)"

definition generateColumnInsights :: "env \<Rightarrow> world \<Rightarrow> world" where
  "generateColumnInsights e w =
     (let w = on_store (setLoading True) w;
          w = on_store (setError None) w;
          w = (case api_call e ColumnInsights ''Column insights failed'' w of
                 (Inr result, w) \<Rightarrow>
                   (let w = on_store (updateSessionData (\<lambda>d. d\<lparr>columnInsights := result\<rparr>)) w;
                        w = on_store (setCurrentStep 4) w;
                        w = add_log e ''Column insights generated successfully!'' (Some Success) w
                    in loadLookupColumns e w)
               | (Inl x, w) \<Rightarrow> on_catch e ''Column insights failed'' x w)
      in on_store (setLoading False) w)"

definition generateLookupInsights :: "env \<Rightarrow> world \<Rightarrow> world" where
  "generateLookupInsights e w =
     (let w = on_store (setLoading True) w;
          w = on_store (setError None) w;
          w = (case api_call e LookupInsights ''Lookup insights failed'' w of
                 (Inr result, w) \<Rightarrow>
                   (let w = on_store (updateSessionData (\<lambda>d. d\<lparr>lookupInsights := result\<rparr>)) w;
                        w = on_store (setCurrentStep 6) w
                    in add_log e ''Lookup insights generated successfully!'' (Some Success) w)
               | (Inl x, w) \<Rightarrow> on_catch e ''Lookup insights failed'' x w)
      in on_store (setLoading False) w)"

definition cleanData :: "env \<Rightarrow> world \<Rightarrow> world" where
  "cleanData e w =
     (let w = on_store (setLoading True) w;
          w = on_store (setError None) w;
          w = (case api_call e CleanSession ''Cleaning failed'' w of
                 (Inr result, w) \<Rightarrow>
                   (let w = on_store (updateSessionData (\<lambda>d. d\<lparr>cleanResult := result\<rparr>)) w;
                        w = on_store (setCurrentStep 3) w;
                        w = add_log e ''Data cleaning completed successfully!'' (Some Success) w
                    in generateColumnInsights e w)
               | (Inl x, w) \<Rightarrow> on_catch e ''Cleaning failed'' x w)
      in on_store (setLoading False) w)"

definition performLookup :: "env \<Rightarrow> string \<Rightarrow> world \<Rightarrow> world" where
  "performLookup e lookupColumn w =
     (let w = on_store (setLoading True) w;
          w = on_store (setError None) w;
          w = (case api_call e (LookupSession lookupColumn) ''Lookup failed'' w of
                 (Inr result, w) \<Rightarrow>
                   (let w = on_store (updateSessionData (\<lambda>d. d\<lparr>lookupResult := result\<rparr>)) w;
                        w = on_store (setCurrentStep 5) w;
                        w = add_log e (''Lookup completed using column: '' @ lookupColumn)
                              (Some Success) w
                    in generateLookupInsights e w)
               | (Inl x, w) \<Rightarrow> on_catch e ''Lookup failed'' x w)
      in on_store (setLoading False) w)"

text \<open>\<^verbatim>\<open>previews[sheet]?.length || 0\<close>; the read of \<^verbatim>\<open>previews[sheet]\<close> can throw.\<close>

definition row_count :: "json \<Rightarrow> string \<Rightarrow> thrown + json" where
  "row_count previews sheet =
     (case get_prop previews sheet of
        Inl x \<Rightarrow> Inl x
      | Inr rows \<Rightarrow>
          (let len = (if rows = JNull \<or> rows = JUndefined then JUndefined
                      else (case get_prop rows ''length'' of Inl x \<Rightarrow> JUndefined | Inr l \<Rightarrow> l))
           in Inr (if truthy len then len else JNum 0)))"

text \<open>\<^verbatim>\<open>cache[key]\<close>: a key the object does not hold reads as \<^verbatim>\<open>undefined\<close>.\<close>

definition cache_read :: "(string \<rightharpoonup> json) \<Rightarrow> string \<Rightarrow> json" where
  "cache_read c key = (case c key of None \<Rightarrow> JUndefined | Some v \<Rightarrow> v)"

definition cacheKey :: "string \<Rightarrow> string \<Rightarrow> string" where
  "cacheKey master target = ''preview_'' @ master @ ''_'' @ target"

text \<open>
  \<^verbatim>\<open>previewSheets\<close> takes \<^verbatim>\<open>sessionData\<close> from \<^verbatim>\<open>get()\<close> once, on entry, and reads the cache
  from that snapshot. The \<^verbatim>\<open>return\<close> of the cached branch still runs \<^verbatim>\<open>finally\<close>.
\<close>

definition previewSheets :: "env \<Rightarrow> string \<Rightarrow> string \<Rightarrow> world \<Rightarrow> world" where
  "previewSheets e master target w =
     (let sd = sessionData (store w);
          w = on_store (setLoading True) w;
          w = on_store (setError None) w;
          key = cacheKey master target;
          cached = cache_read (cache sd) key;
          w = (if truthy cached then
                 (let w = on_store (updateSessionData (\<lambda>d. d
                            \<lparr>masterSheet := Some master, targetSheet := Some target,
                             previewData := cached\<rparr>)) w
                  in add_log e ''Preview loaded from cache (instant!)'' (Some Info) w)
               else
                 (case api_call e (PreviewSession master target) ''Preview failed'' w of
                    (Inl x, w) \<Rightarrow> on_catch e ''Preview failed'' x w
                  | (Inr result, w) \<Rightarrow>
                      (case get_prop result ''previews'' of
                         Inl x \<Rightarrow> on_catch e ''Preview failed'' x w
                       | Inr previews \<Rightarrow>
                           (let newCache = (cache sd)(key \<mapsto> previews);
                                w = on_store (updateSessionData (\<lambda>d. d
                                      \<lparr>masterSheet := Some master,
                                       targetSheet := Some target,
                                       previewData := previews, cache := newCache\<rparr>)) w
                            in case row_count previews master of
                                 Inl x \<Rightarrow> on_catch e ''Preview failed'' x w
                               | Inr masterRows \<Rightarrow>
                                   (case row_count previews target of
                                      Inl x \<Rightarrow> on_catch e ''Preview failed'' x w
                                    | Inr targetRows \<Rightarrow>
                                        add_log e
                                          (''Preview ready! '' @ master @ '': ''
                                           @ to_string masterRows @ '' rows, '' @ target
                                           @ '': '' @ to_string targetRows @ '' rows'')
                                          (Some Success) w)))))
      in on_store (setLoading False) w)"

text \<open>
  \<^verbatim>\<open>quickPreview\<close> throws before it touches the store, or hands the first two sheet names
  to \<^verbatim>\<open>previewSheets\<close>, which catches whatever goes wrong inside it.
\<close>

definition quickPreview :: "env \<Rightarrow> world \<Rightarrow> thrown option \<times> world" where
  "quickPreview e w =
     (let sd = sessionData (store w) in
      if \<not> truthy_str (fileId sd) \<or> length (sheetNames sd) < 2
      then (Some (Error ''Need at least 2 sheets for quick preview''), w)
      else (None, previewSheets e (sheetNames sd ! 0) (sheetNames sd ! 1) w))"

section \<open>Sequences of calls and stage outcomes\<close>

text \<open>The entry one \<^verbatim>\<open>addLog\<close> call appends, and a sequence of such calls, oldest first.\<close>

definition log_entry :: "string \<times> string \<times> level option \<Rightarrow> LogEntry" where
  "log_entry c =
     (case c of (now, msg, lvl) \<Rightarrow>
        \<lparr> timestamp = now, message = msg,
          level = (case lvl of None \<Rightarrow> Info | Some l \<Rightarrow> l) \<rparr>)"

definition addLogs :: "(string \<times> string \<times> level option) list \<Rightarrow> ETLState \<Rightarrow> ETLState" where
  "addLogs calls s = foldl (\<lambda>s c. case c of (now, msg, lvl) \<Rightarrow> addLog now msg lvl s) s calls"

text \<open>
  The seven stage outputs in their pipeline order, each as the truthiness
  \<^verbatim>\<open>getMaxAllowedStep\<close> tests.
\<close>

definition outputs_present :: "ETLState \<Rightarrow> bool list" where
  "outputs_present s =
     (let sd = sessionData s in
      [truthy_str (fileId sd), truthy (previewData sd), truthy (cleanResult sd),
       truthy (columnInsights sd), truthy (lookupResult sd), truthy (lookupInsights sd),
       truthy (updateResult sd)])"

text \<open>
  A stage's own request fails: \<^verbatim>\<open>fetch\<close> or \<^verbatim>\<open>response.json()\<close> rejects, the HTTP status
  is not ok, reading \<^verbatim>\<open>result.success\<close> throws, or the success flag is falsy.
\<close>

fun stage_fails :: "response \<Rightarrow> bool" where
  "stage_fails (Rejected x) = True"
| "stage_fails (Response ok status statusText body) =
     (if ok then
        (case body of
           Inl x \<Rightarrow> True
         | Inr result \<Rightarrow>
             (case get_prop result ''success'' of
                Inl x \<Rightarrow> True
              | Inr success \<Rightarrow> if truthy success then False else True))
      else True)"

text \<open>The seven stage outputs the session data holds.\<close>

definition stage_outputs ::
  "SessionData \<Rightarrow> string option \<times> json \<times> json \<times> json \<times> json \<times> json \<times> json"
where
  "stage_outputs sd =
     (fileId sd, previewData sd, cleanResult sd, columnInsights sd, lookupResult sd,
      lookupInsights sd, updateResult sd)"

text \<open>
  The store a failed stage leaves: the loading flag down, the message as error, one error
  entry logged.
\<close>

definition failed_store :: "string \<Rightarrow> string \<Rightarrow> ETLState \<Rightarrow> ETLState" where
  "failed_store now msg s =
     s\<lparr>isLoading := False, error := Some msg,
       sessionData := (sessionData s)
         \<lparr>logs := slice_last 50
            (logs (sessionData s) @
             [\<lparr> timestamp = now, message = msg, level = ErrorLevel \<rparr>])\<rparr>\<rparr>"

section \<open>The reconciliation engine, from the specification\<close>

text \<open>
  The lookup engine and the insights aggregator run in the backend service behind
  \<^verbatim>\<open>/lookup-session\<close> and \<^verbatim>\<open>/lookup-insights\<close>; the sources hold only their caller (the
  store above) and the components that display \<^verbatim>\<open>lookup_summary\<close> and \<^verbatim>\<open>match_rate\<close>.
  The definitions of this section follow sections 3, 4.3 and 4.4 of the specification.
\<close>

text \<open>
  Modelled from the spec: the data model of section 3. A cell is a scalar: a string, a
  number or null. A row maps column names to cells.
\<close>

datatype cell = Null | Str string | Num int

type_synonym row = "(string \<times> cell) list"

text \<open>Modelled from the spec: a cell a row does not hold is null (section 4.1).\<close>

definition cell_of :: "row \<Rightarrow> string \<Rightarrow> cell" where
  "cell_of r col = (case map_of r col of None \<Rightarrow> Null | Some c \<Rightarrow> c)"

text \<open>
  Modelled from the spec: the status taxonomy, D (active), 0 (check), X (inactive), and
  NOT_FOUND for a Target row without a match.
\<close>

datatype activation = Active_D | Check_0 | Inactive_X

datatype status = Found activation | NOT_FOUND

text \<open>
  Modelled from the spec: the rows of the cleaned Master table. The rule that maps the raw
  value of the status-bearing field into the taxonomy is left open by section 9, so a
  Master row carries that field as a taxonomy value already, or carries none.
\<close>

record master_row =
  m_fields :: row
  m_status :: "activation option"

text \<open>
  Modelled from the spec: a cleaned table (its columns and its rows in sheet order), a
  row of the lookup's result, the error taxonomy of section 7 and its one warning.
\<close>

record 'r table =
  columns :: "string list"
  rows :: "'r list"

record lookup_result =
  target_row :: row
  status :: status
  matched :: "row option"

datatype engine_error = SchemaError | EmptySheetError | InvalidColumnError | InvalidStateError

datatype warning = DuplicateKeyWarning cell

text \<open>
  Modelled from the spec: key normalisation, "trimmed, case-folded". Characters are bytes:
  white space is the six ASCII white-space characters and folding maps A-Z to a-z. A
  number has neither case nor padding and is its own normal form.
\<close>

definition is_space :: "char \<Rightarrow> bool" where
  "is_space c = (c \<in> {CHR '' '', CHR 0x09, CHR 0x0A, CHR 0x0B, CHR 0x0C, CHR 0x0D})"

text \<open>Modelled from the spec: trimming removes white space at both ends.\<close>

definition trim :: "string \<Rightarrow> string" where
  "trim s = rev (dropWhile is_space (rev (dropWhile is_space s)))"

text \<open>Modelled from the spec: case folding, and the normal form of a key.\<close>

definition to_lower :: "char \<Rightarrow> char" where
  "to_lower c =
     (case map_of (zip ''ABCDEFGHIJKLMNOPQRSTUVWXYZ'' ''abcdefghijklmnopqrstuvwxyz'') c of
        None \<Rightarrow> c
      | Some l \<Rightarrow> l)"

definition casefold :: "string \<Rightarrow> string" where
  "casefold s = map to_lower s"

fun normalize_key :: "cell \<Rightarrow> cell" where
  "normalize_key (Str s) = Str (casefold (trim s))"
| "normalize_key Null = Null"
| "normalize_key (Num n) = Num n"

text \<open>
  Modelled from the spec: the index from normalised Master keys to Master rows, in row
  order; \<^const>\<open>map_of\<close> returns the first row of a key, so the first occurrence wins. Each
  later row whose key was already seen yields a warning.
\<close>

definition index_of :: "string \<Rightarrow> master_row list \<Rightarrow> (cell \<times> master_row) list" where
  "index_of keyColumn ms = map (\<lambda>m. (normalize_key (cell_of (m_fields m) keyColumn), m)) ms"

fun duplicate_warnings :: "cell list \<Rightarrow> cell list \<Rightarrow> warning list" where
  "duplicate_warnings seen [] = []"
| "duplicate_warnings seen (k # ks) =
     (if k \<in> set seen then DuplicateKeyWarning k # duplicate_warnings seen ks
      else duplicate_warnings (k # seen) ks)"

text \<open>
  Modelled from the spec: the status of one Target row (section 4.3). A key is empty when
  nothing is left of it after trimming, the reading under which blank keys too are
  treated alike whatever their padding. A matched Master row without a status field
  counts as D.
\<close>

definition classify :: "(cell \<times> master_row) list \<Rightarrow> string \<Rightarrow> row \<Rightarrow> lookup_result" where
  "classify idx keyColumn t =
     (let k = normalize_key (cell_of t keyColumn) in
      if k = Null \<or> k = Str [] then \<lparr> target_row = t, status = NOT_FOUND, matched = None \<rparr>
      else (case map_of idx k of
              None \<Rightarrow> \<lparr> target_row = t, status = NOT_FOUND, matched = None \<rparr>
            | Some m \<Rightarrow>
                \<lparr> target_row = t,
                  status = Found (case m_status m of None \<Rightarrow> Active_D | Some a \<Rightarrow> a),
                  matched = Some (m_fields m) \<rparr>))"

text \<open>
  Modelled from the spec: \<^verbatim>\<open>lookup(cleanedMaster, cleanedTarget, keyColumn)\<close>. One result per
  Target row, in Target order; \<^verbatim>\<open>InvalidColumnError\<close> when either table lacks the column.
\<close>

definition lookup ::
  "master_row table \<Rightarrow> row table \<Rightarrow> string \<Rightarrow> engine_error + (lookup_result list \<times> warning list)"
where
  "lookup master target keyColumn =
     (if keyColumn \<in> set (columns master) \<and> keyColumn \<in> set (columns target)
      then Inr (map (classify (index_of keyColumn (rows master)) keyColumn) (rows target),
                duplicate_warnings [] (map fst (index_of keyColumn (rows master))))
      else Inl InvalidColumnError)"

text \<open>
  Modelled from the spec: the summary of section 4.4. The percentages and the
  recommendations, which no property below speaks of, are left out.
\<close>

record lookup_summary =
  total_records :: nat
  successful_matches :: nat
  failed_matches :: nat
  activation_status_distribution :: "status \<Rightarrow> nat"

definition summarize :: "lookup_result list \<Rightarrow> lookup_summary" where
  "summarize rs =
     \<lparr> total_records = length rs,
       successful_matches =
         length (filter (\<lambda>r. status r \<in> {Found Active_D, Found Check_0, Found Inactive_X}) rs),
       failed_matches = length (filter (\<lambda>r. status r = NOT_FOUND) rs),
       activation_status_distribution = (\<lambda>st. length (filter (\<lambda>r. status r = st) rs)) \<rparr>"

text \<open>
  Modelled from the spec: rounding to one decimal (halves go up), and the match rate,
  which is 0 when there are no records.
\<close>

definition round1 :: "real \<Rightarrow> real" where
  "round1 x = real_of_int (round (x * 10)) / 10"

definition match_rate :: "lookup_result list \<Rightarrow> real" where
  "match_rate rs =
     (let s = summarize rs in
      if total_records s = 0 then 0
      else round1 (real (successful_matches s) / real (total_records s) * 100))"

text \<open>The statuses of a lookup's results, in result order, or its error.\<close>

definition statuses ::
  "engine_error + (lookup_result list \<times> warning list) \<Rightarrow> engine_error + status list"
where
  "statuses out = (case out of Inl err \<Rightarrow> Inl err | Inr (rs, ws) \<Rightarrow> Inr (map status rs))"

section \<open>Example inputs\<close>

definition world0 :: world where
  "world0 = \<lparr> store = initialState, requests = [], ticks = 0 \<rparr>"

text \<open>The store after an upload of a workbook with two sheets.\<close>

definition uploaded :: world where
  "uploaded =
     \<lparr> store = initialState
         \<lparr>currentStep := 1,
          sessionData := initialSessionData
            \<lparr>fileId := Some ''f1'', filename := Some ''bom.xlsx'',
             sheetNames := [''Master'', ''Target'']\<rparr>\<rparr>,
       requests = [], ticks = 0 \<rparr>"

text \<open>A store whose log is full: fifty entries, numbered 0 to 49 in arrival order.\<close>

definition numbered :: "nat \<Rightarrow> LogEntry" where
  "numbered i = \<lparr> timestamp = ''09:00:00'', message = show_nat i, level = Info \<rparr>"

definition full_log :: ETLState where
  "full_log =
     initialState\<lparr>sessionData := initialSessionData\<lparr>logs := map numbered [0..<50]\<rparr>\<rparr>"

text \<open>The uploaded store with an empty file id.\<close>

definition blank_id :: world where
  "blank_id = uploaded
     \<lparr>store := (store uploaded)
        \<lparr>sessionData := (sessionData (store uploaded))\<lparr>fileId := Some []\<rparr>\<rparr>\<rparr>"

text \<open>A backend that cannot be reached, and one that answers every request with 500.\<close>

definition env_down :: env where
  "env_down = \<lparr> fetch = (\<lambda>r. Rejected (Error ''Failed to fetch'')), clock = (\<lambda>n. ''10:00:00'') \<rparr>"

definition env_500 :: env where
  "env_500 =
     \<lparr> fetch = (\<lambda>r. Response False 500 ''Internal Server Error'' (Inr JNull)),
       clock = (\<lambda>n. ''10:00:00'') \<rparr>"

text \<open>A backend that answers a preview request with one Master row and no Target row.\<close>

definition env_ok :: env where
  "env_ok =
     \<lparr> fetch = (\<lambda>r. Response True 200 ''OK''
         (Inr (JObj [(''success'', JBool True),
                     (''previews'', JObj [(''Master'', JArr [JObj []]), (''Target'', JArr [])])]))),
       clock = (\<lambda>n. ''10:00:00'') \<rparr>"

text \<open>A backend whose successful answer carries \<^verbatim>\<open>previews: false\<close>.\<close>

definition env_no_previews :: env where
  "env_no_previews =
     \<lparr> fetch = (\<lambda>r. Response True 200 ''OK''
         (Inr (JObj [(''success'', JBool True), (''previews'', JBool False)]))),
       clock = (\<lambda>n. ''10:00:00'') \<rparr>"

text \<open>Scenario 1 of the specification.\<close>

definition scenario1_master :: "master_row table" where
  "scenario1_master =
     \<lparr> columns = [''PN''],
       rows = [\<lparr> m_fields = [(''PN'', Str ''A1'')], m_status = Some Active_D \<rparr>,
               \<lparr> m_fields = [(''PN'', Str ''A2'')], m_status = Some Inactive_X \<rparr>] \<rparr>"

definition scenario1_target :: "row table" where
  "scenario1_target =
     \<lparr> columns = [''PN''],
       rows = [[(''PN'', Str ''a1 '')], [(''PN'', Str '' A2'')], [(''PN'', Str ''A3'')]] \<rparr>"

text \<open>The Target of scenario 1 with its keys written as the Master writes them.\<close>

definition scenario1_target_plain :: "row table" where
  "scenario1_target_plain =
     \<lparr> columns = [''PN''],
       rows = [[(''PN'', Str ''A1'')], [(''PN'', Str ''A2'')], [(''PN'', Str ''A3'')]] \<rparr>"

text \<open>Scenario 2: Target rows whose key is null, absent or empty.\<close>

definition scenario2_target :: "row table" where
  "scenario2_target =
     \<lparr> columns = [''PN'', ''Qty''],
       rows = [[(''PN'', Null), (''Qty'', Num 3)], [(''Qty'', Num 1)],
               [(''PN'', Str []), (''Qty'', Num 2)]] \<rparr>"

section \<open>Properties of the store\<close>

subsection \<open>Logs, reset and navigation\<close>

lemma slice_last_length: "length (slice_last n xs) \<le> n"
  by (simp add: slice_last_def)

lemma slice_last_absorb: "slice_last n (slice_last n xs @ ys) = slice_last n (xs @ ys)"
proof -
  have "length xs + length ys - (length xs - n + n) + (length xs - n) = length xs + length ys - n"
    by arith
  then show ?thesis
    by (simp add: slice_last_def)
qed

lemma addLog_logs:
  "logs (sessionData (addLog now msg lvl s)) =
     slice_last 50 (logs (sessionData s) @ [log_entry (now, msg, lvl)])"
  by (simp add: addLog_def log_entry_def)

lemma addLogs_snoc:
  "addLogs (cs @ [(now, msg, lvl)]) s = addLog now msg lvl (addLogs cs s)"
  by (simp add: addLogs_def)

lemma addLogs_logs:
  "logs (sessionData (addLogs (c # cs) s)) =
     slice_last 50 (logs (sessionData s) @ map log_entry (c # cs))"
proof (induction cs rule: rev_induct)
  case Nil
  show ?case by (cases c) (simp add: addLogs_def addLog_logs)
next
  case (snoc x xs)
  obtain now msg lvl where x: "x = (now, msg, lvl)" by (cases x) auto
  have "addLogs (c # xs @ [x]) s = addLog now msg lvl (addLogs (c # xs) s)"
    using addLogs_snoc [of "c # xs" now msg lvl s] x by simp
  then show ?case
    using snoc.IH x by (simp add: addLog_logs slice_last_absorb)
qed

lemma addLog_logs_drop:
  "logs (sessionData (addLog now msg lvl s)) =
     drop (Suc (length (logs (sessionData s))) - 50)
       (logs (sessionData s) @ [log_entry (now, msg, lvl)])"
  by (simp add: addLog_logs slice_last_def)

lemma addLog_frame:
  "addLog now msg lvl s =
     s\<lparr>sessionData := (sessionData s)\<lparr>logs := logs (sessionData (addLog now msg lvl s))\<rparr>\<rparr>"
  by (simp add: addLog_def)

text \<open>
  C8: the activity log is a bounded append-only buffer. One \<^verbatim>\<open>addLog\<close> call puts one entry
  (the given message and level, \<^verbatim>\<open>info\<close> when the level is omitted) at the end of the
  previous logs and keeps the most recent 50: the new entry is the last one, before it
  stand the previous entries in their order less the oldest ones beyond 49, and nothing
  else in the store changes. After a sequence of one or more calls the log is the old
  entries followed by the new ones in arrival order, less the oldest ones beyond 50.
\<close>

theorem log_is_bounded_append_only:
  "logs (sessionData (addLog now msg lvl s)) =
     drop (Suc (length (logs (sessionData s))) - 50)
       (logs (sessionData s) @
        [\<lparr> timestamp = now, message = msg,
           level = (case lvl of None \<Rightarrow> Info | Some l \<Rightarrow> l) \<rparr>])
   \<and> last (logs (sessionData (addLog now msg lvl s))) =
       \<lparr> timestamp = now, message = msg, level = (case lvl of None \<Rightarrow> Info | Some l \<Rightarrow> l) \<rparr>
   \<and> butlast (logs (sessionData (addLog now msg lvl s))) =
       drop (length (logs (sessionData s)) - 49) (logs (sessionData s))
   \<and> length (logs (sessionData (addLog now msg lvl s))) =
       min 50 (Suc (length (logs (sessionData s))))
   \<and> (length (logs (sessionData s)) < 50 \<longrightarrow>
        logs (sessionData (addLog now msg lvl s)) =
          logs (sessionData s) @
          [\<lparr> timestamp = now, message = msg,
             level = (case lvl of None \<Rightarrow> Info | Some l \<Rightarrow> l) \<rparr>])
   \<and> addLog now msg lvl s =
       s\<lparr>sessionData := (sessionData s)\<lparr>logs := logs (sessionData (addLog now msg lvl s))\<rparr>\<rparr>
   \<and> logs (sessionData (addLogs (c # cs) s)) =
       drop (length (logs (sessionData s)) + Suc (length cs) - 50)
         (logs (sessionData s) @ map log_entry (c # cs))
   \<and> length (logs (sessionData (addLogs (c # cs) s))) =
       min 50 (length (logs (sessionData s)) + Suc (length cs))"
proof -
  let ?old = "logs (sessionData s)"
  let ?e = "\<lparr> timestamp = now, message = msg,
      level = (case lvl of None \<Rightarrow> Info | Some l \<Rightarrow> l) \<rparr>"
  let ?new = "logs (sessionData (addLog now msg lvl s))"
  have one: "?new = drop (Suc (length ?old) - 50) (?old @ [?e])"
    by (simp add: addLog_logs_drop log_entry_def)
  have split: "?new = drop (length ?old - 49) ?old @ [?e]"
    unfolding one by simp
  have last: "last ?new = ?e" and butlast: "butlast ?new = drop (length ?old - 49) ?old"
    unfolding split by simp_all
  have len: "length ?new = min 50 (Suc (length ?old))"
    unfolding split by (simp add: min_def)
  have short: "length ?old < 50 \<longrightarrow> ?new = ?old @ [?e]"
    unfolding split by simp
  have frame: "addLog now msg lvl s = s\<lparr>sessionData := (sessionData s)\<lparr>logs := ?new\<rparr>\<rparr>"
    by (rule addLog_frame)
  have many: "logs (sessionData (addLogs (c # cs) s)) =
      drop (length ?old + Suc (length cs) - 50) (?old @ map log_entry (c # cs))"
    by (simp add: addLogs_logs slice_last_def)
  have "length (drop (length ?old + Suc (length cs) - 50) (?old @ map log_entry (c # cs))) =
      length ?old + Suc (length cs) - (length ?old + Suc (length cs) - 50)"
    by (simp only: length_drop length_append length_map list.size)
  also have "\<dots> = min 50 (length ?old + Suc (length cs))"
    by arith
  finally have lens: "length (logs (sessionData (addLogs (c # cs) s))) =
      min 50 (length ?old + Suc (length cs))"
    unfolding many .
  from one last butlast len short frame many lens show ?thesis
    by (intro conjI)
qed

theorem log_is_bounded_append_only_witness:
  "logs (sessionData (addLog ''10:00:00'' ''hello'' None initialState)) =
     [\<lparr> timestamp = ''10:00:00'', message = ''hello'', level = Info \<rparr>]
   \<and> logs (sessionData full_log) = map numbered [0..<50]
   \<and> logs (sessionData (addLog ''10:00:00'' ''hello'' (Some Warning) full_log)) =
       drop 1 (logs (sessionData full_log)) @
       [\<lparr> timestamp = ''10:00:00'', message = ''hello'', level = Warning \<rparr>]
   \<and> logs (sessionData (addLogs [(''10:00:00'', ''a'', None), (''10:00:01'', ''b'', Some Success)]
        full_log)) =
       drop 2 (logs (sessionData full_log)) @
       [\<lparr> timestamp = ''10:00:00'', message = ''a'', level = Info \<rparr>,
        \<lparr> timestamp = ''10:00:01'', message = ''b'', level = Success \<rparr>]"
proof -
  have init: "logs (sessionData initialState) = []"
    by (simp add: initialState_def initialSessionData_def)
  have full: "logs (sessionData full_log) = map numbered [0..<50]"
    by (simp add: full_log_def)
  have n: "length (logs (sessionData full_log)) = 50"
    unfolding full by simp
  have one: "logs (sessionData (addLog ''10:00:00'' ''hello'' None initialState)) =
      [\<lparr> timestamp = ''10:00:00'', message = ''hello'', level = Info \<rparr>]"
    using log_is_bounded_append_only [of "''10:00:00''" "''hello''" None initialState]
    by (simp add: init)
  have two: "logs (sessionData (addLog ''10:00:00'' ''hello'' (Some Warning) full_log)) =
       drop 1 (logs (sessionData full_log)) @
       [\<lparr> timestamp = ''10:00:00'', message = ''hello'', level = Warning \<rparr>]"
    using log_is_bounded_append_only [of "''10:00:00''" "''hello''" "Some Warning" full_log]
    by (simp add: n)
  have three: "logs (sessionData (addLogs [(''10:00:00'', ''a'', None), (''10:00:01'', ''b'', Some Success)]
        full_log)) =
       drop 2 (logs (sessionData full_log)) @
       [\<lparr> timestamp = ''10:00:00'', message = ''a'', level = Info \<rparr>,
        \<lparr> timestamp = ''10:00:01'', message = ''b'', level = Success \<rparr>]"
    using log_is_bounded_append_only [of _ _ _ full_log
        "(''10:00:00'', ''a'', None)" "[(''10:00:01'', ''b'', Some Success)]"]
    by (simp add: n log_entry_def)
  from one full two three show ?thesis
    by (intro conjI)
qed

text \<open>
  C6: \<^verbatim>\<open>resetSession\<close> discards the session whatever the store held: the state is the
  initial one again, with step 0, no loading flag, no error and the initial session data,
  whose logs and cache are empty.
\<close>

theorem reset_gives_initial_state:
  "resetSession s = initialState
   \<and> currentStep (resetSession s) = 0 \<and> \<not> isLoading (resetSession s)
   \<and> error (resetSession s) = None
   \<and> sessionData (resetSession s) = initialSessionData
   \<and> logs (sessionData (resetSession s)) = []
   \<and> cache (sessionData (resetSession s)) = Map.empty"
  by (simp add: resetSession_def initialState_def initialSessionData_def)

theorem reset_gives_initial_state_witness:
  "resetSession (store (previewSheets env_ok ''Master'' ''Target'' uploaded)) = initialState"
  using reset_gives_initial_state [of "store (previewSheets env_ok ''Master'' ''Target'' uploaded)"]
  by simp

lemma getMaxAllowedStep_first_missing:
  "getMaxAllowedStep s = int (length (takeWhile (\<lambda>p. p) (outputs_present s)))"
  by (simp add: getMaxAllowedStep_def outputs_present_def Let_def)

lemma getMaxAllowedStep_addLog: "getMaxAllowedStep (addLog now msg lvl s) = getMaxAllowedStep s"
  by (simp add: getMaxAllowedStep_def addLog_def Let_def)

lemma getMaxAllowedStep_currentStep: "getMaxAllowedStep (s\<lparr>currentStep := k\<rparr>) = getMaxAllowedStep s"
  by (simp add: getMaxAllowedStep_def)

lemma currentStep_addLog: "currentStep (addLog now msg lvl s) = currentStep s"
  by (simp add: addLog_def)

text \<open>
  C9: \<^verbatim>\<open>getMaxAllowedStep\<close> is the index of the first missing (falsy) stage output in the
  order fileId, previewData, cleanResult, columnInsights, lookupResult, lookupInsights,
  updateResult, and 7 when none is missing. \<^verbatim>\<open>goToStep\<close> moves exactly when the step lies
  between 0 and that bound, \<^verbatim>\<open>nextStep\<close> exactly when the current step is below it,
  \<^verbatim>\<open>previousStep\<close> exactly when the current step is positive; otherwise the current step
  stays. None of the three changes the bound.
\<close>

theorem navigation_bounded_by_progress:
  "getMaxAllowedStep s = int (length (takeWhile (\<lambda>p. p) (outputs_present s)))
   \<and> currentStep (goToStep now step s) =
       (if 0 \<le> step \<and> step \<le> getMaxAllowedStep s then step else currentStep s)
   \<and> currentStep (nextStep s) =
       (if currentStep s < getMaxAllowedStep s then currentStep s + 1 else currentStep s)
   \<and> currentStep (previousStep now s) =
       (if currentStep s > 0 then currentStep s - 1 else currentStep s)
   \<and> getMaxAllowedStep (goToStep now step s) = getMaxAllowedStep s
   \<and> getMaxAllowedStep (nextStep s) = getMaxAllowedStep s
   \<and> getMaxAllowedStep (previousStep now s) = getMaxAllowedStep s"
  by (simp add: getMaxAllowedStep_first_missing [symmetric] goToStep_def nextStep_def
      previousStep_def Let_def currentStep_addLog getMaxAllowedStep_addLog
      getMaxAllowedStep_currentStep)

theorem navigation_bounded_by_progress_witness:
  "getMaxAllowedStep (store uploaded) = 1
   \<and> currentStep (goToStep ''10:00:00'' 2 (store uploaded)) = 1
   \<and> currentStep (goToStep ''10:00:00'' 0 (store uploaded)) = 0
   \<and> currentStep (nextStep (store uploaded)) = 1
   \<and> currentStep (previousStep ''10:00:00'' (store uploaded)) = 0"
proof -
  have m: "getMaxAllowedStep (store uploaded) = 1"
    by (simp add: getMaxAllowedStep_def uploaded_def initialState_def initialSessionData_def
        truthy_str_def)
  have c: "currentStep (store uploaded) = 1"
    by (simp add: uploaded_def)
  show ?thesis
    using navigation_bounded_by_progress [of "store uploaded" "''10:00:00''" 2]
      navigation_bounded_by_progress [of "store uploaded" "''10:00:00''" 0]
    by (simp add: m c)
qed

subsection \<open>Failed stages\<close>

lemma api_call_world:
  "snd (api_call e req what w) = w\<lparr>requests := requests w @ [req]\<rparr>"
  by (simp add: api_call_def send_def split: response.splits sum.splits)

lemma api_call_fails:
  assumes "stage_fails (fetch e req)"
  shows "\<exists>x. api_call e req what w = (Inl x, w\<lparr>requests := requests w @ [req]\<rparr>)"
  using assms
  by (cases "fetch e req")
    (auto simp: api_call_def send_def split: sum.splits if_splits)

lemma api_call_succeeds:
  assumes "fetch e req = Response True st txt (Inr result)"
    and "get_prop result ''success'' = Inr success" and "truthy success"
  shows "api_call e req what w = (Inr result, w\<lparr>requests := requests w @ [req]\<rparr>)"
  using assms by (simp add: api_call_def send_def)

lemma on_catch_store:
  "store (on_store (setLoading False) (on_catch e what x
      (on_store (setError None) (on_store (setLoading True) w)\<lparr>requests := rs\<rparr>))) =
   failed_store (clock e (ticks w)) (case x of Error m \<Rightarrow> m | NonError \<Rightarrow> what) (store w)"
  by (simp add: on_catch_def on_store_def add_log_def addLog_def setError_def setLoading_def
      failed_store_def Let_def)

lemma cleanData_fails:
  assumes "stage_fails (fetch e CleanSession)"
  shows "\<exists>msg. store (cleanData e w) = failed_store (clock e (ticks w)) msg (store w)"
proof -
  let ?w = "on_store (setError None) (on_store (setLoading True) w)"
  obtain x where "api_call e CleanSession ''Cleaning failed'' ?w =
      (Inl x, ?w\<lparr>requests := requests ?w @ [CleanSession]\<rparr>)"
    using api_call_fails [OF assms] by blast
  then have "store (cleanData e w) =
      failed_store (clock e (ticks w)) (case x of Error m \<Rightarrow> m | NonError \<Rightarrow> ''Cleaning failed'') (store w)"
    by (simp add: cleanData_def Let_def on_catch_store)
  then show ?thesis by blast
qed

lemma performLookup_fails:
  assumes "stage_fails (fetch e (LookupSession col))"
  shows "\<exists>msg. store (performLookup e col w) = failed_store (clock e (ticks w)) msg (store w)"
proof -
  let ?w = "on_store (setError None) (on_store (setLoading True) w)"
  obtain x where "api_call e (LookupSession col) ''Lookup failed'' ?w =
      (Inl x, ?w\<lparr>requests := requests ?w @ [LookupSession col]\<rparr>)"
    using api_call_fails [OF assms] by blast
  then have "store (performLookup e col w) =
      failed_store (clock e (ticks w)) (case x of Error m \<Rightarrow> m | NonError \<Rightarrow> ''Lookup failed'') (store w)"
    by (simp add: performLookup_def Let_def on_catch_store)
  then show ?thesis by blast
qed

lemma failed_store_keeps:
  "currentStep (failed_store now msg s) = currentStep s
   \<and> (sessionData (failed_store now msg s))\<lparr>logs := logs (sessionData s)\<rparr> = sessionData s
   \<and> stage_outputs (sessionData (failed_store now msg s)) = stage_outputs (sessionData s)"
  by (simp add: failed_store_def stage_outputs_def)

lemma failed_store_idle:
  assumes "\<not> isLoading s"
  shows "failed_store now msg s =
     s\<lparr>error := Some msg,
       sessionData := (sessionData s)
         \<lparr>logs := drop (Suc (length (logs (sessionData s))) - 50)
            (logs (sessionData s) @
             [\<lparr> timestamp = now, message = msg, level = ErrorLevel \<rparr>])\<rparr>\<rparr>"
  using assms by (simp add: failed_store_def slice_last_def)

lemma failed_store_fields:
  "\<not> isLoading (failed_store now msg s)"
  "error (failed_store now msg s) = Some msg"
  "logs (sessionData (failed_store now msg s)) =
     drop (Suc (length (logs (sessionData s))) - 50)
       (logs (sessionData s) @ [\<lparr> timestamp = now, message = msg, level = ErrorLevel \<rparr>])"
  by (simp_all add: failed_store_def slice_last_def)

text \<open>
  C5: a failed stage is atomic. \<^verbatim>\<open>cleanData\<close> (and likewise \<^verbatim>\<open>performLookup\<close>) fails when
  its \<^verbatim>\<open>try\<close> block throws, which happens exactly when its own request fails. Then
  fileId, previewData, cleanResult, columnInsights, lookupResult, lookupInsights and
  updateResult, every other field of the session data but the logs, and the current step
  are what they were, and \<^verbatim>\<open>error\<close> is set. For a call entered with the loading flag down,
  which is how actions are entered when one runs at a time, the store after the call is
  the store before it with the error field and the logs changed and nothing else: the
  logs gain one error entry carrying the message.
\<close>

theorem failed_stage_keeps_outputs:
  "(stage_fails (fetch e CleanSession) \<longrightarrow>
      stage_outputs (sessionData (store (cleanData e w))) = stage_outputs (sessionData (store w))
      \<and> (sessionData (store (cleanData e w)))\<lparr>logs := logs (sessionData (store w))\<rparr> =
          sessionData (store w)
      \<and> currentStep (store (cleanData e w)) = currentStep (store w)
      \<and> error (store (cleanData e w)) \<noteq> None
      \<and> (\<not> isLoading (store w) \<longrightarrow>
           (\<exists>msg. store (cleanData e w) =
              (store w)\<lparr>error := Some msg,
                sessionData := (sessionData (store w))
                  \<lparr>logs := drop (Suc (length (logs (sessionData (store w)))) - 50)
                     (logs (sessionData (store w)) @
                      [\<lparr> timestamp = clock e (ticks w), message = msg,
                         level = ErrorLevel \<rparr>])\<rparr>\<rparr>)))
   \<and> (stage_fails (fetch e (LookupSession col)) \<longrightarrow>
      stage_outputs (sessionData (store (performLookup e col w))) =
        stage_outputs (sessionData (store w))
      \<and> (sessionData (store (performLookup e col w)))\<lparr>logs := logs (sessionData (store w))\<rparr> =
          sessionData (store w)
      \<and> currentStep (store (performLookup e col w)) = currentStep (store w)
      \<and> error (store (performLookup e col w)) \<noteq> None
      \<and> (\<not> isLoading (store w) \<longrightarrow>
           (\<exists>msg. store (performLookup e col w) =
              (store w)\<lparr>error := Some msg,
                sessionData := (sessionData (store w))
                  \<lparr>logs := drop (Suc (length (logs (sessionData (store w)))) - 50)
                     (logs (sessionData (store w)) @
                      [\<lparr> timestamp = clock e (ticks w), message = msg,
                         level = ErrorLevel \<rparr>])\<rparr>\<rparr>)))"
proof (intro conjI impI)
  assume "stage_fails (fetch e CleanSession)"
  then obtain m where m: "store (cleanData e w) = failed_store (clock e (ticks w)) m (store w)"
    using cleanData_fails by blast
  show "stage_outputs (sessionData (store (cleanData e w))) = stage_outputs (sessionData (store w))"
    and "(sessionData (store (cleanData e w)))\<lparr>logs := logs (sessionData (store w))\<rparr> =
          sessionData (store w)"
    and "currentStep (store (cleanData e w)) = currentStep (store w)"
    and "error (store (cleanData e w)) \<noteq> None"
    by (simp_all add: m failed_store_keeps failed_store_fields)
  assume "\<not> isLoading (store w)"
  then show "\<exists>msg. store (cleanData e w) =
      (store w)\<lparr>error := Some msg,
        sessionData := (sessionData (store w))
          \<lparr>logs := drop (Suc (length (logs (sessionData (store w)))) - 50)
             (logs (sessionData (store w)) @
              [\<lparr> timestamp = clock e (ticks w), message = msg, level = ErrorLevel \<rparr>])\<rparr>\<rparr>"
    using m failed_store_idle [of "store w" "clock e (ticks w)" m] by auto
next
  assume "stage_fails (fetch e (LookupSession col))"
  then obtain m where m:
    "store (performLookup e col w) = failed_store (clock e (ticks w)) m (store w)"
    using performLookup_fails by blast
  show "stage_outputs (sessionData (store (performLookup e col w))) =
      stage_outputs (sessionData (store w))"
    and "(sessionData (store (performLookup e col w)))\<lparr>logs := logs (sessionData (store w))\<rparr> =
          sessionData (store w)"
    and "currentStep (store (performLookup e col w)) = currentStep (store w)"
    and "error (store (performLookup e col w)) \<noteq> None"
    by (simp_all add: m failed_store_keeps failed_store_fields)
  assume "\<not> isLoading (store w)"
  then show "\<exists>msg. store (performLookup e col w) =
      (store w)\<lparr>error := Some msg,
        sessionData := (sessionData (store w))
          \<lparr>logs := drop (Suc (length (logs (sessionData (store w)))) - 50)
             (logs (sessionData (store w)) @
              [\<lparr> timestamp = clock e (ticks w), message = msg, level = ErrorLevel \<rparr>])\<rparr>\<rparr>"
    using m failed_store_idle [of "store w" "clock e (ticks w)" m] by auto
qed

theorem failed_stage_keeps_outputs_witness:
  "stage_fails (fetch env_500 CleanSession)
   \<and> stage_fails (fetch env_500 (LookupSession ''PN''))
   \<and> \<not> isLoading (store uploaded)
   \<and> stage_outputs (sessionData (store (cleanData env_500 uploaded))) =
       (Some ''f1'', JNull, JNull, JNull, JNull, JNull, JNull)
   \<and> stage_outputs (sessionData (store (performLookup env_500 ''PN'' uploaded))) =
       (Some ''f1'', JNull, JNull, JNull, JNull, JNull, JNull)
   \<and> currentStep (store (cleanData env_500 uploaded)) = 1
   \<and> currentStep (store (performLookup env_500 ''PN'' uploaded)) = 1
   \<and> (\<exists>msg. store (cleanData env_500 uploaded) =
        (store uploaded)\<lparr>error := Some msg,
          sessionData := (sessionData (store uploaded))
            \<lparr>logs := [\<lparr> timestamp = ''10:00:00'', message = msg, level = ErrorLevel \<rparr>]\<rparr>\<rparr>)
   \<and> (\<exists>msg. store (performLookup env_500 ''PN'' uploaded) =
        (store uploaded)\<lparr>error := Some msg,
          sessionData := (sessionData (store uploaded))
            \<lparr>logs := [\<lparr> timestamp = ''10:00:00'', message = msg, level = ErrorLevel \<rparr>]\<rparr>\<rparr>)"
proof -
  have f: "stage_fails (fetch env_500 CleanSession)" "stage_fails (fetch env_500 (LookupSession ''PN''))"
    by (simp_all add: env_500_def)
  have u: "stage_outputs (sessionData (store uploaded)) =
      (Some ''f1'', JNull, JNull, JNull, JNull, JNull, JNull)"
    "currentStep (store uploaded) = 1" "\<not> isLoading (store uploaded)"
    "logs (sessionData (store uploaded)) = []"
    by (simp_all add: uploaded_def stage_outputs_def initialSessionData_def initialState_def)
  have c: "clock env_500 (ticks uploaded) = ''10:00:00''"
    by (simp add: env_500_def)
  show ?thesis
    using failed_stage_keeps_outputs [of env_500 uploaded "''PN''"] f u c by simp
qed

text \<open>
  The stage a successful \<^verbatim>\<open>cleanData\<close> starts next, \<^verbatim>\<open>generateColumnInsights\<close>, has a
  \<^verbatim>\<open>try\<close> block of its own. When that stage fails, it too leaves the outputs as it found
  them: they are the ones before the call with the clean result just stored.
\<close>

lemma generateColumnInsights_fails:
  assumes "stage_fails (fetch e ColumnInsights)"
  shows "\<exists>msg. store (generateColumnInsights e w) = failed_store (clock e (ticks w)) msg (store w)"
proof -
  let ?w = "on_store (setError None) (on_store (setLoading True) w)"
  obtain x where "api_call e ColumnInsights ''Column insights failed'' ?w =
      (Inl x, ?w\<lparr>requests := requests ?w @ [ColumnInsights]\<rparr>)"
    using api_call_fails [OF assms] by blast
  then have "store (generateColumnInsights e w) =
      failed_store (clock e (ticks w))
        (case x of Error m \<Rightarrow> m | NonError \<Rightarrow> ''Column insights failed'') (store w)"
    by (simp add: generateColumnInsights_def Let_def on_catch_store)
  then show ?thesis by blast
qed

lemma follow_up_failure_keeps_clean_result:
  assumes "fetch e CleanSession = Response True st txt (Inr result)"
    and "get_prop result ''success'' = Inr success" and "truthy success"
    and "stage_fails (fetch e ColumnInsights)"
  shows "stage_outputs (sessionData (store (cleanData e w))) =
         stage_outputs ((sessionData (store w))\<lparr>cleanResult := result\<rparr>)"
    and "currentStep (store (cleanData e w)) = 3"
proof -
  let ?w = "on_store (setError None) (on_store (setLoading True) w)"
  let ?v = "add_log e ''Data cleaning completed successfully!'' (Some Success)
      (on_store (setCurrentStep 3)
        (on_store (updateSessionData (\<lambda>d. d\<lparr>cleanResult := result\<rparr>))
          (?w\<lparr>requests := requests ?w @ [CleanSession]\<rparr>)))"
  have call: "api_call e CleanSession ''Cleaning failed'' ?w =
      (Inr result, ?w\<lparr>requests := requests ?w @ [CleanSession]\<rparr>)"
    using assms(1-3) by (rule api_call_succeeds)
  have run: "cleanData e w = on_store (setLoading False) (generateColumnInsights e ?v)"
    by (simp add: cleanData_def Let_def call)
  obtain msg where
    "store (generateColumnInsights e ?v) = failed_store (clock e (ticks ?v)) msg (store ?v)"
    using generateColumnInsights_fails [OF assms(4)] by blast
  then have s: "store (cleanData e w) =
      setLoading False (failed_store (clock e (ticks ?v)) msg (store ?v))"
    by (simp add: run on_store_def)
  show "stage_outputs (sessionData (store (cleanData e w))) =
      stage_outputs ((sessionData (store w))\<lparr>cleanResult := result\<rparr>)"
    by (simp add: s setLoading_def failed_store_def stage_outputs_def add_log_def addLog_def
        on_store_def setCurrentStep_def updateSessionData_def setError_def)
  show "currentStep (store (cleanData e w)) = 3"
    by (simp add: s setLoading_def failed_store_def add_log_def addLog_def
        on_store_def setCurrentStep_def updateSessionData_def setError_def)
qed

subsection \<open>The preview cache and the quick preview\<close>

lemma add_log_keeps:
  "requests (add_log e msg lvl w) = requests w"
  "error (store (add_log e msg lvl w)) = error (store w)"
  "(sessionData (store (add_log e msg lvl w)))\<lparr>logs := l\<rparr> = (sessionData (store w))\<lparr>logs := l\<rparr>"
  by (simp_all add: add_log_def addLog_def)

lemma on_catch_keeps:
  "requests (on_catch e what x w) = requests w"
  "(sessionData (store (on_catch e what x w)))\<lparr>logs := l\<rparr> = (sessionData (store w))\<lparr>logs := l\<rparr>"
  by (simp_all add: on_catch_def add_log_def addLog_def on_store_def setError_def Let_def)

lemma previewSheets_cached:
  assumes "truthy (cache_read (cache (sessionData (store w))) (cacheKey m t))"
  shows "requests (previewSheets e m t w) = requests w"
    and "(sessionData (store (previewSheets e m t w)))\<lparr>logs := l\<rparr> =
         (sessionData (store w))
           \<lparr>masterSheet := Some m, targetSheet := Some t,
            previewData := cache_read (cache (sessionData (store w))) (cacheKey m t),
            logs := l\<rparr>"
  using assms
  by (simp_all add: previewSheets_def Let_def on_store_def add_log_def addLog_def
      setLoading_def setError_def updateSessionData_def)

lemma previewSheets_uncached:
  assumes "\<not> truthy (cache_read (cache (sessionData (store w))) (cacheKey m t))"
    and "fetch e (PreviewSession m t) = Response True st txt (Inr result)"
    and "get_prop result ''success'' = Inr success" and "truthy success"
    and "get_prop result ''previews'' = Inr p"
  shows "requests (previewSheets e m t w) = requests w @ [PreviewSession m t]"
    and "(sessionData (store (previewSheets e m t w)))\<lparr>logs := l\<rparr> =
         (sessionData (store w))
           \<lparr>masterSheet := Some m, targetSheet := Some t, previewData := p,
            cache := (cache (sessionData (store w)))(cacheKey m t \<mapsto> p), logs := l\<rparr>"
proof -
  let ?w = "on_store (setError None) (on_store (setLoading True) w)"
  have call: "api_call e (PreviewSession m t) ''Preview failed'' ?w =
      (Inr result, ?w\<lparr>requests := requests ?w @ [PreviewSession m t]\<rparr>)"
    using assms(2-4) by (rule api_call_succeeds)
  show "requests (previewSheets e m t w) = requests w @ [PreviewSession m t]"
    using assms(1,5) call
    by (simp add: previewSheets_def Let_def add_log_keeps on_catch_keeps on_store_def
        split: sum.splits)
  show "(sessionData (store (previewSheets e m t w)))\<lparr>logs := l\<rparr> =
         (sessionData (store w))
           \<lparr>masterSheet := Some m, targetSheet := Some t, previewData := p,
            cache := (cache (sessionData (store w)))(cacheKey m t \<mapsto> p), logs := l\<rparr>"
    using assms(1,5) call
    by (simp add: previewSheets_def Let_def on_store_def setLoading_def setError_def
        updateSessionData_def add_log_keeps on_catch_keeps split: sum.splits)
qed


text \<open>
  C7: \<^verbatim>\<open>previewSheets\<close> caches by the key \<^verbatim>\<open>preview_<master>_<target>\<close>. When the cache
  holds a truthy value under the key, the call sends no request and sets masterSheet,
  targetSheet and previewData from that value. When it holds none and the backend answers
  with success, the call sends one request and stores the returned previews under the
  key; if those previews are truthy, as every object is, the next call with the same two
  names sends no request and yields them again.
\<close>

theorem preview_cache_by_sheet_names:
  "cacheKey m t = ''preview_'' @ m @ ''_'' @ t
   \<and> (truthy (cache_read (cache (sessionData (store w))) (cacheKey m t)) \<longrightarrow>
        requests (previewSheets e m t w) = requests w
        \<and> masterSheet (sessionData (store (previewSheets e m t w))) = Some m
        \<and> targetSheet (sessionData (store (previewSheets e m t w))) = Some t
        \<and> previewData (sessionData (store (previewSheets e m t w))) =
            cache_read (cache (sessionData (store w))) (cacheKey m t))
   \<and> (\<not> truthy (cache_read (cache (sessionData (store w))) (cacheKey m t))
        \<and> fetch e (PreviewSession m t) = Response True st txt (Inr result)
        \<and> get_prop result ''success'' = Inr success \<and> truthy success
        \<and> get_prop result ''previews'' = Inr p \<longrightarrow>
        requests (previewSheets e m t w) = requests w @ [PreviewSession m t]
        \<and> cache (sessionData (store (previewSheets e m t w))) =
            (cache (sessionData (store w)))(cacheKey m t \<mapsto> p)
        \<and> (truthy p \<longrightarrow>
             requests (previewSheets e' m t (previewSheets e m t w)) =
               requests (previewSheets e m t w)
             \<and> previewData (sessionData (store (previewSheets e' m t (previewSheets e m t w)))) = p))"
proof (intro conjI impI)
  show "cacheKey m t = ''preview_'' @ m @ ''_'' @ t"
    by (simp add: cacheKey_def)
next
  assume hit: "truthy (cache_read (cache (sessionData (store w))) (cacheKey m t))"
  note sd = previewSheets_cached(2) [OF hit, where e = e and l = "[]"]
  show "requests (previewSheets e m t w) = requests w"
    using hit by (rule previewSheets_cached(1))
  show "masterSheet (sessionData (store (previewSheets e m t w))) = Some m"
    using arg_cong [OF sd, of masterSheet] by simp
  show "targetSheet (sessionData (store (previewSheets e m t w))) = Some t"
    using arg_cong [OF sd, of targetSheet] by simp
  show "previewData (sessionData (store (previewSheets e m t w))) =
      cache_read (cache (sessionData (store w))) (cacheKey m t)"
    using arg_cong [OF sd, of previewData] by simp
next
  assume miss: "\<not> truthy (cache_read (cache (sessionData (store w))) (cacheKey m t))
      \<and> fetch e (PreviewSession m t) = Response True st txt (Inr result)
      \<and> get_prop result ''success'' = Inr success \<and> truthy success
      \<and> get_prop result ''previews'' = Inr p"
  then have sd: "(sessionData (store (previewSheets e m t w)))\<lparr>logs := []\<rparr> =
      (sessionData (store w))
        \<lparr>masterSheet := Some m, targetSheet := Some t, previewData := p,
         cache := (cache (sessionData (store w)))(cacheKey m t \<mapsto> p), logs := []\<rparr>"
    using previewSheets_uncached(2) [where l = "[]"] by blast
  show "requests (previewSheets e m t w) = requests w @ [PreviewSession m t]"
    using miss previewSheets_uncached(1) by blast
  show stored: "cache (sessionData (store (previewSheets e m t w))) =
      (cache (sessionData (store w)))(cacheKey m t \<mapsto> p)"
    using arg_cong [OF sd, of cache] by simp
  {
    assume p: "truthy p"
    have hit: "truthy (cache_read (cache (sessionData (store (previewSheets e m t w)))) (cacheKey m t))"
      using p by (simp add: stored cache_read_def)
    note sd' = previewSheets_cached(2) [OF hit, where e = e' and l = "[]"]
    show "requests (previewSheets e' m t (previewSheets e m t w)) =
        requests (previewSheets e m t w)"
      using hit by (rule previewSheets_cached(1))
    show "previewData (sessionData (store (previewSheets e' m t (previewSheets e m t w)))) = p"
      using arg_cong [OF sd', of previewData] by (simp add: stored cache_read_def)
  }
qed

theorem preview_cache_by_sheet_names_witness:
  "requests (previewSheets env_ok ''Master'' ''Target'' uploaded) =
     [PreviewSession ''Master'' ''Target'']
   \<and> requests (previewSheets env_down ''Master'' ''Target''
        (previewSheets env_ok ''Master'' ''Target'' uploaded)) =
     [PreviewSession ''Master'' ''Target'']
   \<and> masterSheet (sessionData (store (previewSheets env_down ''Master'' ''Target''
        (previewSheets env_ok ''Master'' ''Target'' uploaded)))) = Some ''Master''
   \<and> previewData (sessionData (store (previewSheets env_down ''Master'' ''Target''
        (previewSheets env_ok ''Master'' ''Target'' uploaded)))) =
     JObj [(''Master'', JArr [JObj []]), (''Target'', JArr [])]"
proof -
  let ?p = "JObj [(''Master'', JArr [JObj []]), (''Target'', JArr [])]"
  let ?w = "previewSheets env_ok ''Master'' ''Target'' uploaded"
  have miss: "\<not> truthy (cache_read (cache (sessionData (store uploaded)))
      (cacheKey ''Master'' ''Target''))"
    by (simp add: uploaded_def initialSessionData_def cache_read_def)
  have answer: "fetch env_ok (PreviewSession ''Master'' ''Target'') =
      Response True 200 ''OK'' (Inr (JObj [(''success'', JBool True), (''previews'', ?p)]))"
    by (simp add: env_ok_def)
  have r: "requests uploaded = []"
    by (simp add: uploaded_def)
  have first: "requests ?w = [PreviewSession ''Master'' ''Target'']"
    "cache (sessionData (store ?w)) =
       (cache (sessionData (store uploaded)))(cacheKey ''Master'' ''Target'' \<mapsto> ?p)"
    "requests (previewSheets env_down ''Master'' ''Target'' ?w) = requests ?w"
    "previewData (sessionData (store (previewSheets env_down ''Master'' ''Target'' ?w))) = ?p"
    using preview_cache_by_sheet_names
      [of "''Master''" "''Target''" uploaded env_ok 200 "''OK''"
        "JObj [(''success'', JBool True), (''previews'', ?p)]" "JBool True" ?p env_down]
      miss answer r
    by simp_all
  have hit: "truthy (cache_read (cache (sessionData (store ?w))) (cacheKey ''Master'' ''Target''))"
    by (simp add: first(2) cache_read_def)
  have "masterSheet (sessionData (store (previewSheets env_down ''Master'' ''Target'' ?w))) =
      Some ''Master''"
    using preview_cache_by_sheet_names [of "''Master''" "''Target''" ?w env_down] hit
    by blast
  then show ?thesis
    using first by simp
qed

text \<open>
  C7 as worded takes the presence of the key for a hit. The store tests the cached value:
  after a successful answer whose previews are \<^verbatim>\<open>false\<close> the key is present, and the next
  call with the same names goes to the backend again.
\<close>

theorem falsy_previews_are_fetched_again:
  "cache (sessionData (store (previewSheets env_no_previews ''Master'' ''Target'' uploaded)))
     (cacheKey ''Master'' ''Target'') = Some (JBool False)
   \<and> error (store (previewSheets env_no_previews ''Master'' ''Target'' uploaded)) = None
   \<and> requests (previewSheets env_no_previews ''Master'' ''Target'' uploaded) =
       [PreviewSession ''Master'' ''Target'']
   \<and> requests (previewSheets env_no_previews ''Master'' ''Target''
        (previewSheets env_no_previews ''Master'' ''Target'' uploaded)) =
       [PreviewSession ''Master'' ''Target'', PreviewSession ''Master'' ''Target'']"
  by (simp add: previewSheets_def uploaded_def env_no_previews_def initialState_def
      initialSessionData_def cache_read_def cacheKey_def api_call_def send_def on_store_def
      Let_def row_count_def add_log_def addLog_def setLoading_def setError_def
      updateSessionData_def)

text \<open>
  C10: \<^verbatim>\<open>quickPreview\<close> throws \<^verbatim>\<open>Need at least 2 sheets for quick preview\<close> and leaves
  the store as it is when the file id is null or empty or fewer than two sheet names are
  loaded; otherwise it is \<^verbatim>\<open>previewSheets\<close> on the first two sheet names, in that order.
\<close>

theorem quick_preview_precondition:
  "(fileId (sessionData (store w)) = None \<or> fileId (sessionData (store w)) = Some []
      \<or> length (sheetNames (sessionData (store w))) < 2 \<longrightarrow>
      quickPreview e w = (Some (Error ''Need at least 2 sheets for quick preview''), w))
   \<and> (fileId (sessionData (store w)) = Some f \<and> f \<noteq> []
      \<and> sheetNames (sessionData (store w)) = a # b # rest \<longrightarrow>
      quickPreview e w = (None, previewSheets e a b w))"
  by (auto simp: quickPreview_def Let_def truthy_str_def)

theorem quick_preview_precondition_witness:
  "quickPreview env_ok world0 = (Some (Error ''Need at least 2 sheets for quick preview''), world0)
   \<and> quickPreview env_ok uploaded = (None, previewSheets env_ok ''Master'' ''Target'' uploaded)"
  using quick_preview_precondition [of world0 env_ok]
    quick_preview_precondition [of uploaded env_ok "''f1''" "''Master''" "''Target''" "[]"]
  by (simp add: world0_def uploaded_def initialState_def initialSessionData_def)

text \<open>
  C10 as worded throws only on a null file id. The guard is \<^verbatim>\<open>!sessionData.fileId\<close>,
  which the empty string satisfies too: with two sheets loaded and the file id \<^verbatim>\<open>''\<close>
  the call throws and \<^verbatim>\<open>previewSheets\<close> is not reached.
\<close>

theorem quick_preview_rejects_empty_file_id:
  "fileId (sessionData (store blank_id)) \<noteq> None
   \<and> length (sheetNames (sessionData (store blank_id))) = 2
   \<and> quickPreview env_ok blank_id =
       (Some (Error ''Need at least 2 sheets for quick preview''), blank_id)"
  by (simp add: quickPreview_def blank_id_def uploaded_def initialState_def
      initialSessionData_def truthy_str_def Let_def)

section \<open>Properties of the reconciliation engine\<close>

subsection \<open>Summary counts\<close>

lemma status_cases:
  "(status r = NOT_FOUND) = (status r \<notin> {Found Active_D, Found Check_0, Found Inactive_X})"
proof (cases "status r")
  case (Found a)
  then show ?thesis by (cases a) simp_all
next
  case NOT_FOUND
  then show ?thesis by simp
qed

lemma summarize_partition:
  "successful_matches (summarize rs) + failed_matches (summarize rs) = total_records (summarize rs)"
proof -
  let ?found = "\<lambda>r. status r \<in> {Found Active_D, Found Check_0, Found Inactive_X}"
  have "filter (\<lambda>r. status r = NOT_FOUND) rs = filter (\<lambda>r. \<not> ?found r) rs"
    by (rule filter_cong) (simp_all only: status_cases)
  moreover have "length (filter ?found rs) + length (filter (\<lambda>r. \<not> ?found r) rs) = length rs"
    by (rule sum_length_filter_compl)
  ultimately show ?thesis
    by (simp only: summarize_def lookup_summary.simps)
qed

lemma lookup_length:
  "lookup master target k = Inr (results, warnings) \<Longrightarrow> length results = length (rows target)"
  by (auto simp: lookup_def split: if_splits)

text \<open>
  C1: in every summary, successful_matches + failed_matches = total_records, where
  successful_matches counts the results whose status is D, 0 or X, failed_matches those
  whose status is NOT_FOUND and total_records all of them; for the results of a lookup the
  sum is the number of Target rows.
\<close>

theorem summary_counts_add_up:
  "successful_matches (summarize rs) + failed_matches (summarize rs) = total_records (summarize rs)
   \<and> successful_matches (summarize rs) =
       length (filter (\<lambda>r. status r \<in> {Found Active_D, Found Check_0, Found Inactive_X}) rs)
   \<and> failed_matches (summarize rs) = length (filter (\<lambda>r. status r = NOT_FOUND) rs)
   \<and> total_records (summarize rs) = length rs
   \<and> (lookup master target k = Inr (results, warnings) \<longrightarrow>
        successful_matches (summarize results) + failed_matches (summarize results) =
          length (rows target))"
proof -
  have "lookup master target k = Inr (results, warnings) \<longrightarrow>
      successful_matches (summarize results) + failed_matches (summarize results) =
        length (rows target)"
    using summarize_partition [of results] lookup_length [of master target k results warnings]
    by (simp add: summarize_def)
  then show ?thesis
    using summarize_partition [of rs] by (simp add: summarize_def)
qed

lemma scenario1_lookup:
  "lookup scenario1_master scenario1_target ''PN'' =
     Inr ([\<lparr> target_row = [(''PN'', Str ''a1 '')], status = Found Active_D,
              matched = Some [(''PN'', Str ''A1'')] \<rparr>,
           \<lparr> target_row = [(''PN'', Str '' A2'')], status = Found Inactive_X,
              matched = Some [(''PN'', Str ''A2'')] \<rparr>,
           \<lparr> target_row = [(''PN'', Str ''A3'')], status = NOT_FOUND, matched = None \<rparr>], [])"
  by (simp add: lookup_def scenario1_master_def scenario1_target_def index_of_def classify_def
      cell_of_def trim_def is_space_def casefold_def to_lower_def Let_def)

theorem summary_counts_add_up_witness:
  "successful_matches (summarize (fst (projr (lookup scenario1_master scenario1_target ''PN''))))
     + failed_matches (summarize (fst (projr (lookup scenario1_master scenario1_target ''PN'')))) = 3"
  using summary_counts_add_up [of "fst (projr (lookup scenario1_master scenario1_target ''PN''))"
      scenario1_master scenario1_target "''PN''"
      "fst (projr (lookup scenario1_master scenario1_target ''PN''))" "[]"]
  by (simp add: scenario1_lookup)

subsection \<open>The match rate\<close>

lemma round1_bounds:
  assumes "0 \<le> x" "x \<le> 100"
  shows "0 \<le> round1 x" "round1 x \<le> 100"
proof -
  have "round (0 :: real) \<le> round (x * 10)" by (rule round_mono) (use assms(1) in simp)
  then show "0 \<le> round1 x" by (simp add: round1_def)
  have "round (x * 10) \<le> round (1000 :: real)" by (rule round_mono) (use assms(2) in simp)
  then have "real_of_int (round (x * 10)) \<le> 1000" by simp
  then show "round1 x \<le> 100" by (simp add: round1_def)
qed

lemma round1_close: "\<bar>round1 x - x\<bar> \<le> 1 / 20"
proof -
  have "\<bar>real_of_int (round (x * 10)) - x * 10\<bar> \<le> 1 / 2"
    by (rule of_int_round_abs_le)
  then show ?thesis by (simp add: round1_def field_simps abs_if split: if_splits)
qed

lemma successful_le_total: "successful_matches (summarize rs) \<le> total_records (summarize rs)"
  by (simp add: summarize_def)

text \<open>
  C2: the match rate lies between 0 and 100. It is 0 when there are no records, and
  otherwise successful_matches / total_records * 100 rounded to one decimal: a multiple
  of 0.1 at most 0.05 away from the exact percentage.
\<close>

theorem match_rate_range:
  "0 \<le> match_rate rs \<and> match_rate rs \<le> 100
   \<and> (total_records (summarize rs) = 0 \<longrightarrow> match_rate rs = 0)
   \<and> (total_records (summarize rs) > 0 \<longrightarrow>
        match_rate rs =
          round1 (real (successful_matches (summarize rs)) / real (total_records (summarize rs)) * 100)
        \<and> \<bar>match_rate rs -
             real (successful_matches (summarize rs)) / real (total_records (summarize rs)) * 100\<bar>
            \<le> 1 / 20
        \<and> match_rate rs * 10 = real_of_int (round (match_rate rs * 10)))"
proof (cases "total_records (summarize rs) = 0")
  case True
  then show ?thesis by (simp add: match_rate_def)
next
  case False
  let ?x = "real (successful_matches (summarize rs)) / real (total_records (summarize rs)) * 100"
  have x: "0 \<le> ?x" "?x \<le> 100"
    using False successful_le_total [of rs] by (simp_all add: field_simps)
  have m: "match_rate rs = round1 ?x"
    using False by (simp add: match_rate_def Let_def)
  have "round1 ?x * 10 = real_of_int (round (round1 ?x * 10))"
    by (simp add: round1_def)
  then show ?thesis
    using False m round1_bounds [OF x] round1_close [of ?x] by simp
qed

theorem match_rate_range_witness:
  "match_rate [] = 0
   \<and> match_rate (fst (projr (lookup scenario1_master scenario1_target ''PN''))) \<le> 100
   \<and> \<bar>match_rate (fst (projr (lookup scenario1_master scenario1_target ''PN''))) - 200 / 3\<bar> \<le> 1 / 20"
proof -
  let ?R = "fst (projr (lookup scenario1_master scenario1_target ''PN''))"
  let ?x = "real (successful_matches (summarize ?R)) / real (total_records (summarize ?R)) * 100"
  have empty: "total_records (summarize []) = 0"
    by (simp add: summarize_def)
  have some: "0 < total_records (summarize ?R)"
    by (simp add: scenario1_lookup summarize_def)
  have x: "?x = 200 / 3"
    by (simp add: scenario1_lookup summarize_def)
  have "match_rate [] = 0"
    using match_rate_range [of "[]"] empty by blast
  moreover have "match_rate ?R \<le> 100"
    using match_rate_range [of ?R] by blast
  moreover have "\<bar>match_rate ?R - ?x\<bar> \<le> 1 / 20"
    using match_rate_range [of ?R] some by blast
  ultimately show ?thesis
    unfolding x by blast
qed


subsection \<open>Key normalisation\<close>

lemma is_space_to_lower: "is_space (to_lower c) = is_space c"
proof (cases "map_of (zip ''ABCDEFGHIJKLMNOPQRSTUVWXYZ'' ''abcdefghijklmnopqrstuvwxyz'') c")
  case None
  then show ?thesis by (simp add: to_lower_def)
next
  case (Some l)
  then have "(c, l) \<in> set (zip ''ABCDEFGHIJKLMNOPQRSTUVWXYZ'' ''abcdefghijklmnopqrstuvwxyz'')"
    by (rule map_of_SomeD)
  then have "\<not> is_space c \<and> \<not> is_space l"
    by (auto simp: is_space_def)
  then show ?thesis
    using Some by (simp add: to_lower_def)
qed

lemma dropWhile_casefold:
  "dropWhile is_space (casefold s) = casefold (dropWhile is_space s)"
  by (induction s) (simp_all add: casefold_def is_space_to_lower)

lemma trim_casefold: "trim (casefold s) = casefold (trim s)"
proof -
  have "rev (casefold s) = casefold (rev s)" for s
    by (simp add: casefold_def rev_map)
  then show ?thesis
    by (simp add: trim_def dropWhile_casefold)
qed

lemma dropWhile_pad:
  assumes "list_all is_space l"
  shows "dropWhile is_space (l @ s) = dropWhile is_space s"
  using assms by (induction l) simp_all

lemma rev_dropWhile_pad:
  assumes "list_all is_space r"
  shows "dropWhile is_space (rev (dropWhile is_space (s @ r))) =
         dropWhile is_space (rev (dropWhile is_space s))"
proof (cases "list_all is_space s")
  case True
  then have "dropWhile is_space s = []" "dropWhile is_space (s @ r) = []"
    using assms by (simp_all add: list_all_iff)
  then show ?thesis by (simp only:)
next
  case False
  then obtain c where "c \<in> set s" "\<not> is_space c"
    by (auto simp: list_all_iff)
  then have "dropWhile is_space (s @ r) = dropWhile is_space s @ r"
    by (rule dropWhile_append1)
  then show ?thesis
    using assms by (simp add: dropWhile_pad)
qed

lemma trim_pad:
  assumes "list_all is_space l" "list_all is_space r"
  shows "trim (l @ s @ r) = trim s"
  using assms by (simp add: trim_def dropWhile_pad rev_dropWhile_pad)

lemma normalize_key_variants:
  assumes "list_all is_space l1" "list_all is_space r1"
    and "list_all is_space l2" "list_all is_space r2"
    and "casefold a = casefold b"
  shows "normalize_key (Str (l1 @ a @ r1)) = normalize_key (Str (l2 @ b @ r2))"
proof -
  have "casefold (trim a) = casefold (trim b)"
    using assms(5) trim_casefold [of a] trim_casefold [of b] by simp
  then show ?thesis
    using assms(1-4) by (simp add: trim_pad)
qed

lemma index_agrees:
  assumes "list_all2 (\<lambda>m m'. normalize_key (cell_of (m_fields m) k) =
                               normalize_key (cell_of (m_fields m') k)
                             \<and> m_status m = m_status m') ms ms'"
  shows "map_option m_status (map_of (index_of k ms) c) =
         map_option m_status (map_of (index_of k ms') c)"
  using assms by (induction ms ms' rule: list_all2_induct) (simp_all add: index_of_def)

lemma classify_agrees:
  assumes "map_option m_status (map_of idx (normalize_key (cell_of t k))) =
           map_option m_status (map_of idx' (normalize_key (cell_of t' k)))"
    and "normalize_key (cell_of t k) = normalize_key (cell_of t' k)"
  shows "status (classify idx k t) = status (classify idx' k t')"
  using assms by (auto simp: classify_def Let_def split: option.splits)

lemma statuses_agree:
  assumes "list_all2 (\<lambda>m m'. normalize_key (cell_of (m_fields m) k) =
                               normalize_key (cell_of (m_fields m') k)
                             \<and> m_status m = m_status m') ms ms'"
    and "list_all2 (\<lambda>t t'. normalize_key (cell_of t k) = normalize_key (cell_of t' k)) ts ts'"
  shows "map status (map (classify (index_of k ms) k) ts) =
         map status (map (classify (index_of k ms') k) ts')"
  using assms(2)
proof (induction ts ts' rule: list_all2_induct)
  case Nil
  show ?case by simp
next
  case (Cons t ts t' ts')
  have "status (classify (index_of k ms) k t) = status (classify (index_of k ms') k t')"
    using Cons.hyps(1) index_agrees [OF assms(1), of "normalize_key (cell_of t k)"]
    by (intro classify_agrees) simp_all
  then show ?case
    using Cons.IH by simp
qed

text \<open>
  C3: keys that differ only by leading or trailing white space or by letter case have the
  same normal form, and a lookup sees keys through their normal forms only, on both
  sides: replacing Master keys and Target keys by such variants leaves every status as it
  was. In scenario 1 (Master keys A1, A2 with statuses D, X; Target keys \<^verbatim>\<open>"a1 "\<close>,
  \<^verbatim>\<open>" A2"\<close>, \<^verbatim>\<open>"A3"\<close>) the statuses are D, X, NOT_FOUND and the match rate is 66.7.
\<close>

theorem lookup_ignores_case_and_padding:
  "(list_all is_space l1 \<and> list_all is_space r1 \<and> list_all is_space l2 \<and> list_all is_space r2
      \<and> casefold a = casefold b \<longrightarrow>
      normalize_key (Str (l1 @ a @ r1)) = normalize_key (Str (l2 @ b @ r2)))
   \<and> (columns master = columns master' \<and> columns target = columns target'
      \<and> list_all2 (\<lambda>m m'. normalize_key (cell_of (m_fields m) k) =
                             normalize_key (cell_of (m_fields m') k)
                           \<and> m_status m = m_status m') (rows master) (rows master')
      \<and> list_all2 (\<lambda>t t'. normalize_key (cell_of t k) = normalize_key (cell_of t' k))
           (rows target) (rows target') \<longrightarrow>
      statuses (lookup master target k) = statuses (lookup master' target' k))
   \<and> statuses (lookup scenario1_master scenario1_target ''PN'') =
       Inr [Found Active_D, Found Inactive_X, NOT_FOUND]
   \<and> (\<exists>rs ws. lookup scenario1_master scenario1_target ''PN'' = Inr (rs, ws)
        \<and> match_rate rs = 667 / 10)"
proof (intro conjI impI)
  assume "list_all is_space l1 \<and> list_all is_space r1 \<and> list_all is_space l2
      \<and> list_all is_space r2 \<and> casefold a = casefold b"
  then show "normalize_key (Str (l1 @ a @ r1)) = normalize_key (Str (l2 @ b @ r2))"
    using normalize_key_variants by blast
next
  assume h: "columns master = columns master' \<and> columns target = columns target'
      \<and> list_all2 (\<lambda>m m'. normalize_key (cell_of (m_fields m) k) =
                             normalize_key (cell_of (m_fields m') k)
                           \<and> m_status m = m_status m') (rows master) (rows master')
      \<and> list_all2 (\<lambda>t t'. normalize_key (cell_of t k) = normalize_key (cell_of t' k))
           (rows target) (rows target')"
  then have "map status (map (classify (index_of k (rows master)) k) (rows target)) =
      map status (map (classify (index_of k (rows master')) k) (rows target'))"
    using statuses_agree by blast
  then show "statuses (lookup master target k) = statuses (lookup master' target' k)"
    using h by (simp add: statuses_def lookup_def)
next
  show "statuses (lookup scenario1_master scenario1_target ''PN'') =
      Inr [Found Active_D, Found Inactive_X, NOT_FOUND]"
    by (simp add: statuses_def scenario1_lookup)
next
  have "round (2000 / 3 :: real) = 667"
    by (rule round_unique) simp_all
  then have "match_rate (fst (projr (lookup scenario1_master scenario1_target ''PN''))) = 667 / 10"
    by (simp add: scenario1_lookup match_rate_def summarize_def round1_def)
  then show "\<exists>rs ws. lookup scenario1_master scenario1_target ''PN'' = Inr (rs, ws)
      \<and> match_rate rs = 667 / 10"
    by (simp add: scenario1_lookup)
qed

theorem lookup_ignores_case_and_padding_witness:
  "normalize_key (Str ''a1 '') = normalize_key (Str '' A1'')
   \<and> statuses (lookup scenario1_master scenario1_target ''PN'') =
       statuses (lookup scenario1_master scenario1_target_plain ''PN'')"
proof -
  have pads: "list_all is_space []" "list_all is_space '' ''"
    by (simp_all add: is_space_def)
  have fold: "casefold ''a1'' = casefold ''A1''"
    by (simp add: casefold_def to_lower_def)
  have rows: "list_all2 (\<lambda>m m'. normalize_key (cell_of (m_fields m) ''PN'') =
                             normalize_key (cell_of (m_fields m') ''PN'')
                           \<and> m_status m = m_status m') (rows scenario1_master) (rows scenario1_master)"
    "list_all2 (\<lambda>t t'. normalize_key (cell_of t ''PN'') = normalize_key (cell_of t' ''PN''))
       (rows scenario1_target) (rows scenario1_target_plain)"
    by (simp_all add: scenario1_master_def scenario1_target_def scenario1_target_plain_def
        cell_of_def trim_def is_space_def casefold_def to_lower_def)
  have cols: "columns scenario1_target = columns scenario1_target_plain"
    by (simp add: scenario1_target_def scenario1_target_plain_def)
  show ?thesis
    using lookup_ignores_case_and_padding [of "[]" "'' ''" "'' ''" "[]" "''a1''" "''A1''"
        scenario1_master scenario1_master scenario1_target scenario1_target_plain "''PN''"]
      pads fold rows cols
    by simp
qed

text \<open>
  C4: a Target row whose key is null or empty gets the status NOT_FOUND, whatever the
  Master table holds.
\<close>

theorem blank_key_is_not_found:
  "lookup master target k = Inr (results, warnings) \<and> i < length (rows target)
     \<and> (cell_of (rows target ! i) k = Null \<or> cell_of (rows target ! i) k = Str []) \<longrightarrow>
   i < length results \<and> status (results ! i) = NOT_FOUND"
  by (auto simp: lookup_def classify_def trim_def casefold_def split: if_splits)

theorem blank_key_is_not_found_witness:
  "statuses (lookup scenario1_master scenario2_target ''PN'') = Inr [NOT_FOUND, NOT_FOUND, NOT_FOUND]"
proof -
  obtain rs ws where l: "lookup scenario1_master scenario2_target ''PN'' = Inr (rs, ws)"
    by (simp add: lookup_def scenario1_master_def scenario2_target_def)
  have n: "length (rows scenario2_target) = 3" "length rs = 3"
    using l by (auto simp: lookup_def scenario2_target_def split: if_splits)
  have k: "cell_of (rows scenario2_target ! 0) ''PN'' = Null"
    "cell_of (rows scenario2_target ! 1) ''PN'' = Null"
    "cell_of (rows scenario2_target ! 2) ''PN'' = Str []"
    by (simp_all add: scenario2_target_def cell_of_def)
  obtain r0 r1 r2 where rs: "rs = [r0, r1, r2]"
    using n(2) by (auto simp: numeral_3_eq_3 length_Suc_conv)
  have "status (rs ! 0) = NOT_FOUND" "status (rs ! 1) = NOT_FOUND" "status (rs ! 2) = NOT_FOUND"
    using blank_key_is_not_found [of scenario1_master scenario2_target "''PN''" rs ws 0]
      blank_key_is_not_found [of scenario1_master scenario2_target "''PN''" rs ws 1]
      blank_key_is_not_found [of scenario1_master scenario2_target "''PN''" rs ws 2]
      l n k by simp_all
  then have "map status rs = [NOT_FOUND, NOT_FOUND, NOT_FOUND]"
    by (simp add: rs)
  then show ?thesis
    by (simp add: statuses_def l)
qed

end
